theory Spec2Isabelle
  imports Main "HOL-Library.Word" "HOL-Library.Infinite_Set"
begin

section \<open>Values of the Python program\<close>

text \<open>
  A Python \<^verbatim>\<open>str\<close> is a sequence of code points (integers below \<open>0x110000\<close>, lone
  surrogates included); \<^verbatim>\<open>bytes\<close> is a sequence of octets. String constants of the
  source are written \<open>py ''...''\<close>.
\<close>

type_synonym py_str = "nat list"
type_synonym py_bytes = "8 word list"

definition py :: "string \<Rightarrow> py_str" where
  "py s = map of_char s"

text \<open>
  The exceptions that the source raises, catches or lets through. \<open>PyJWTError\<close> stands
  for \<^verbatim>\<open>jwt.PyJWTError\<close> and all its subclasses, the class the \<^verbatim>\<open>except\<close> clause of
  \<^verbatim>\<open>get_current_user\<close> names. \<open>IntegrityError\<close>, \<open>MultipleResultsFound\<close>,
  \<open>InvalidRequestError\<close> and \<open>DBAPIError\<close> are SQLAlchemy's; \<open>OSError\<close> is what a
  statement raises when the server of \<^verbatim>\<open>DATABASE_URL\<close> cannot be reached.
\<close>

datatype py_error =
    UnicodeEncodeError
  | UnicodeDecodeError
  | ValueError
  | TypeError
  | PyJWTError
  | HTTPException nat string
  | IntegrityError
  | MultipleResultsFound
  | InvalidRequestError
  | DBAPIError
  | OSError

section \<open>\<^verbatim>\<open>str.encode()\<close> and \<^verbatim>\<open>bytes.decode()\<close>: strict UTF-8\<close>

definition surrogate :: "nat \<Rightarrow> bool" where
  "surrogate c \<longleftrightarrow> 0xD800 \<le> c \<and> c < 0xE000"

text \<open>
  A code point that UTF-8 can carry: a Unicode scalar value. The encoder refuses a lone
  surrogate with \<^verbatim>\<open>UnicodeEncodeError\<close> (and, here, a number that is no code point).
\<close>

definition scalar_value :: "nat \<Rightarrow> bool" where
  "scalar_value c \<longleftrightarrow> c < 0x110000 \<and> \<not> surrogate c"

definition encode_cp :: "nat \<Rightarrow> py_error + py_bytes" where
  "encode_cp c =
     (if c < 0x80 then Inr [of_nat c]
      else if c < 0x800 then Inr [of_nat (0xC0 + c div 64), of_nat (0x80 + c mod 64)]
      else if surrogate c then Inl UnicodeEncodeError
      else if c < 0x10000 then
        Inr [of_nat (0xE0 + c div 4096), of_nat (0x80 + c div 64 mod 64),
             of_nat (0x80 + c mod 64)]
      else if c < 0x110000 then
        Inr [of_nat (0xF0 + c div 262144), of_nat (0x80 + c div 4096 mod 64),
             of_nat (0x80 + c div 64 mod 64), of_nat (0x80 + c mod 64)]
      else Inl UnicodeEncodeError)"

fun str_encode :: "py_str \<Rightarrow> py_error + py_bytes" where
  "str_encode [] = Inr []"
| "str_encode (c # cs) =
     (case encode_cp c of
        Inl e \<Rightarrow> Inl e
      | Inr bs \<Rightarrow> (case str_encode cs of Inl e \<Rightarrow> Inl e | Inr rest \<Rightarrow> Inr (bs @ rest)))"

definition continuation :: "8 word \<Rightarrow> bool" where
  "continuation b \<longleftrightarrow> 0x80 \<le> unat b \<and> unat b < 0xC0"

text \<open>
  The strict decoder: a lead byte announces the length of its sequence, the following
  bytes must be continuation bytes, and the decoded code point must need that length
  (no overlong form), be no surrogate and lie below \<open>0x110000\<close>.
\<close>

fun bytes_decode :: "py_bytes \<Rightarrow> py_error + py_str" where
  "bytes_decode [] = Inr []"
| "bytes_decode (b0 # bs) =
     (if unat b0 < 0x80 then
        (case bytes_decode bs of Inl e \<Rightarrow> Inl e | Inr cs \<Rightarrow> Inr (unat b0 # cs))
      else if 0xC0 \<le> unat b0 \<and> unat b0 < 0xE0 then
        (case bs of
           b1 # r \<Rightarrow>
             (let c = (unat b0 - 0xC0) * 64 + (unat b1 - 0x80) in
              if continuation b1 \<and> 0x80 \<le> c then
                (case bytes_decode r of Inl e \<Rightarrow> Inl e | Inr cs \<Rightarrow> Inr (c # cs))
              else Inl UnicodeDecodeError)
         | _ \<Rightarrow> Inl UnicodeDecodeError)
      else if 0xE0 \<le> unat b0 \<and> unat b0 < 0xF0 then
        (case bs of
           b1 # b2 # r \<Rightarrow>
             (let c = (unat b0 - 0xE0) * 4096 + (unat b1 - 0x80) * 64 + (unat b2 - 0x80) in
              if continuation b1 \<and> continuation b2 \<and> 0x800 \<le> c \<and> \<not> surrogate c then
                (case bytes_decode r of Inl e \<Rightarrow> Inl e | Inr cs \<Rightarrow> Inr (c # cs))
              else Inl UnicodeDecodeError)
         | _ \<Rightarrow> Inl UnicodeDecodeError)
      else if 0xF0 \<le> unat b0 \<and> unat b0 < 0xF8 then
        (case bs of
           b1 # b2 # b3 # r \<Rightarrow>
             (let c = (unat b0 - 0xF0) * 262144 + (unat b1 - 0x80) * 4096
                      + (unat b2 - 0x80) * 64 + (unat b3 - 0x80) in
              if continuation b1 \<and> continuation b2 \<and> continuation b3
                 \<and> 0x10000 \<le> c \<and> c < 0x110000 then
                (case bytes_decode r of Inl e \<Rightarrow> Inl e | Inr cs \<Rightarrow> Inr (c # cs))
              else Inl UnicodeDecodeError)
         | _ \<Rightarrow> Inl UnicodeDecodeError)
      else Inl UnicodeDecodeError)"

section \<open>The external libraries\<close>

text \<open>
  \<^verbatim>\<open>bcrypt\<close>, \<^verbatim>\<open>jwt\<close>, the sentence-transformer model, \<^verbatim>\<open>json\<close>'s rendering of a float and
  FastAPI's parsing of the \<^verbatim>\<open>Authorization\<close> header are no code of this repository: they
  are parameters of the model, and every function below that calls one takes the
  record \<open>lib\<close>. A library call returns \<open>Inr\<close> its value or \<open>Inl\<close> the exception it raises.
  The element type \<open>'f\<close> stands for Python's \<^verbatim>\<open>float\<close>, \<open>'req\<close> for the HTTP request.
\<close>

text \<open>
  The values of a claims mapping. A number is an integer here; the program itself reads
  the subject only.
\<close>

datatype json =
    JNull
  | JBool bool
  | JInt int
  | JStr py_str
  | JArr "json list"
  | JObj "(py_str \<times> json) list"

type_synonym claims = "py_str \<rightharpoonup> json"

record ('f, 'req) libs =
  hashpw :: "py_bytes \<Rightarrow> py_bytes \<Rightarrow> py_error + py_bytes"
  checkpw :: "py_bytes \<Rightarrow> py_bytes \<Rightarrow> py_error + bool"
  jwt_encode :: "claims \<Rightarrow> py_str \<Rightarrow> py_str \<Rightarrow> py_error + py_str"
  jwt_decode :: "py_str \<Rightarrow> py_str \<Rightarrow> py_str list \<Rightarrow> py_error + claims"
  model_encode :: "py_str \<Rightarrow> py_error + 'f list"
  float_repr :: "'f \<Rightarrow> string"
  bearer_token :: "'req \<Rightarrow> py_str option"

text \<open>Sequencing: the first exception raised ends the evaluation.\<close>

definition and_then :: "py_error + 'a \<Rightarrow> ('a \<Rightarrow> py_error + 'b) \<Rightarrow> py_error + 'b" where
  "and_then r f = (case r of Inl e \<Rightarrow> Inl e | Inr x \<Rightarrow> f x)"

section \<open>Authentication configuration, passwords and tokens\<close>

definition SECRET_KEY :: py_str where
  "SECRET_KEY = py ''your_secret_key''"

definition ALGORITHM :: py_str where
  "ALGORITHM = py ''HS256''"

text \<open>
  \<^verbatim>\<open>bcrypt.hashpw(password.encode(), bcrypt.gensalt()).decode()\<close>. The argument \<open>salt\<close>
  is the value that this call of \<^verbatim>\<open>bcrypt.gensalt()\<close> returns.
\<close>

definition hash_password :: "('f, 'req) libs \<Rightarrow> py_bytes \<Rightarrow> py_str \<Rightarrow> py_error + py_str" where
  "hash_password lib salt password =
     and_then (str_encode password) (\<lambda>p.
     and_then (hashpw lib p salt) bytes_decode)"

text \<open>\<^verbatim>\<open>bcrypt.checkpw(password.encode(), hashed.encode())\<close>\<close>

definition verify_password :: "('f, 'req) libs \<Rightarrow> py_str \<Rightarrow> py_str \<Rightarrow> py_error + bool" where
  "verify_password lib password hashed =
     and_then (str_encode password) (\<lambda>p.
     and_then (str_encode hashed) (\<lambda>h.
     checkpw lib p h))"


section \<open>The relational store\<close>

text \<open>
  The three mapped classes. An attribute is \<open>None\<close> while it is unset or when its column
  is \<^verbatim>\<open>NULL\<close>; every column but the primary key is nullable, as declared.
\<close>

record user =
  u_id :: "int option"
  username :: "py_str option"
  password_hash :: "py_str option"
  role :: "py_str option"

record category =
  c_id :: "int option"
  name :: "py_str option"

record article =
  a_id :: "int option"
  title :: "py_str option"
  content :: "py_str option"
  vector :: "py_str option"
  search_text :: "py_str option"
  category_id :: "int option"

text \<open>
  The tables with the sequences that generate their primary keys (integers, not
  bounded here). The server of \<^verbatim>\<open>DATABASE_URL\<close> is either reachable, with these tables,
  or not.
\<close>

record store =
  users :: "user list"
  categories :: "category list"
  articles :: "article list"
  users_id_seq :: int
  categories_id_seq :: int
  articles_id_seq :: int

datatype database = Unreachable | Reachable store

text \<open>
  The constraints that the schema declares and the store maintains: every row carries a
  primary key, unique in its table, that the table's sequence has already passed; no
  two users share a username and no two categories a name (\<^verbatim>\<open>NULL\<close> apart); and the
  category of an article, when set, is stored.
\<close>

definition wf_store :: "store \<Rightarrow> bool" where
  "wf_store st \<longleftrightarrow>
     (\<forall>u \<in> set (users st). \<exists>i. u_id u = Some i \<and> i < users_id_seq st) \<and>
     (\<forall>c \<in> set (categories st). \<exists>i. c_id c = Some i \<and> i < categories_id_seq st) \<and>
     (\<forall>a \<in> set (articles st). \<exists>i. a_id a = Some i \<and> i < articles_id_seq st) \<and>
     distinct (map u_id (users st)) \<and>
     distinct (map c_id (categories st)) \<and>
     distinct (map a_id (articles st)) \<and>
     distinct (filter (\<lambda>x. x \<noteq> None) (map username (users st))) \<and>
     distinct (filter (\<lambda>x. x \<noteq> None) (map name (categories st))) \<and>
     (\<forall>a \<in> set (articles st).
        category_id a \<noteq> None \<longrightarrow> (\<exists>c \<in> set (categories st). c_id c = category_id a))"

text \<open>
  \<^verbatim>\<open>db.execute(select(User).filter(User.username == x))\<close>: comparing with \<^verbatim>\<open>None\<close> is
  \<^verbatim>\<open>IS NULL\<close>; a string is compared with the column; any other value cannot be bound
  to the string column, and the statement raises.
\<close>

definition select_user_by_username :: "database \<Rightarrow> json option \<Rightarrow> py_error + user list" where
  "select_user_by_username db x =
     (case db of
        Unreachable \<Rightarrow> Inl OSError
      | Reachable st \<Rightarrow>
          (case x of
             None \<Rightarrow> Inr (filter (\<lambda>u. username u = None) (users st))
           | Some JNull \<Rightarrow> Inr (filter (\<lambda>u. username u = None) (users st))
           | Some (JStr s) \<Rightarrow> Inr (filter (\<lambda>u. username u = Some s) (users st))
           | Some _ \<Rightarrow> Inl DBAPIError))"


fun scalar_one_or_none :: "'a list \<Rightarrow> py_error + 'a option" where
  "scalar_one_or_none [] = Inr None"
| "scalar_one_or_none [x] = Inr (Some x)"
| "scalar_one_or_none (x # y # zs) = Inl MultipleResultsFound"

text \<open>
  \<^verbatim>\<open>db.add(user); await db.commit()\<close>: the \<^verbatim>\<open>INSERT\<close> draws the primary key from the
  sequence (which stays advanced when the statement fails), fills the column default
  of \<open>role\<close>, and is refused with \<^verbatim>\<open>IntegrityError\<close> when the primary key or the unique
  \<open>username\<close> is taken; nothing is stored then.
\<close>

definition commit_user :: "database \<Rightarrow> user \<Rightarrow> (py_error + user) \<times> database" where
  "commit_user db obj =
     (case db of
        Unreachable \<Rightarrow> (Inl OSError, db)
      | Reachable st \<Rightarrow>
          (let st1 = (if u_id obj = None then st\<lparr>users_id_seq := users_id_seq st + 1\<rparr> else st);
               row = obj\<lparr>u_id := (if u_id obj = None then Some (users_id_seq st) else u_id obj),
                         role := (if role obj = None then Some (py ''user'') else role obj)\<rparr>
           in if (\<exists>r \<in> set (users st). u_id r = u_id row)
                 \<or> (username row \<noteq> None \<and> (\<exists>r \<in> set (users st). username r = username row))
              then (Inl IntegrityError, Reachable st1)
              else (Inr row, Reachable (st1\<lparr>users := users st1 @ [row]\<rparr>))))"

text \<open>\<^verbatim>\<open>await db.refresh(user)\<close>: the row is read again by its primary key.\<close>

definition refresh_user :: "database \<Rightarrow> user \<Rightarrow> py_error + user" where
  "refresh_user db obj =
     (case db of
        Unreachable \<Rightarrow> Inl OSError
      | Reachable st \<Rightarrow>
          (case find (\<lambda>r. u_id r = u_id obj) (users st) of
             None \<Rightarrow> Inl InvalidRequestError
           | Some r \<Rightarrow> Inr r))"

text \<open>
  The same for an article: the \<^verbatim>\<open>INSERT\<close> is refused when the primary key is taken or
  when \<open>category_id\<close> is set and names no row of \<open>categories\<close> (the foreign key).
\<close>

definition commit_article :: "database \<Rightarrow> article \<Rightarrow> (py_error + article) \<times> database" where
  "commit_article db obj =
     (case db of
        Unreachable \<Rightarrow> (Inl OSError, db)
      | Reachable st \<Rightarrow>
          (let st1 = (if a_id obj = None then st\<lparr>articles_id_seq := articles_id_seq st + 1\<rparr>
                      else st);
               row = obj\<lparr>a_id := (if a_id obj = None then Some (articles_id_seq st)
                                   else a_id obj)\<rparr>
           in if (\<exists>r \<in> set (articles st). a_id r = a_id row)
                 \<or> (category_id row \<noteq> None
                     \<and> \<not> (\<exists>c \<in> set (categories st). c_id c = category_id row))
              then (Inl IntegrityError, Reachable st1)
              else (Inr row, Reachable (st1\<lparr>articles := articles st1 @ [row]\<rparr>))))"

definition refresh_article :: "database \<Rightarrow> article \<Rightarrow> py_error + article" where
  "refresh_article db obj =
     (case db of
        Unreachable \<Rightarrow> Inl OSError
      | Reachable st \<Rightarrow>
          (case find (\<lambda>r. a_id r = a_id obj) (articles st) of
             None \<Rightarrow> Inl InvalidRequestError
           | Some r \<Rightarrow> Inr r))"

section \<open>The authenticated user\<close>

text \<open>
  \<^verbatim>\<open>OAuth2PasswordBearer(tokenUrl="token")\<close> as a dependency: a request that presents no
  bearer token is refused with 401.
\<close>

definition oauth2_scheme :: "('f, 'req) libs \<Rightarrow> 'req \<Rightarrow> py_error + py_str" where
  "oauth2_scheme lib req =
     (case bearer_token lib req of
        None \<Rightarrow> Inl (HTTPException 401 ''Not authenticated'')
      | Some token \<Rightarrow> Inr token)"

text \<open>
  \<^verbatim>\<open>get_current_user\<close>: the \<^verbatim>\<open>try\<close> block decodes the token and looks the subject up;
  the \<^verbatim>\<open>except\<close> clause turns a \<^verbatim>\<open>jwt.PyJWTError\<close>, and nothing else, into 401.
\<close>

definition get_current_user :: "('f, 'req) libs \<Rightarrow> database \<Rightarrow> py_str \<Rightarrow> py_error + user" where
  "get_current_user lib db token =
     (case
        and_then (jwt_decode lib token SECRET_KEY [ALGORITHM]) (\<lambda>payload.
        and_then (select_user_by_username db (payload (py ''sub''))) (\<lambda>result.
        and_then (scalar_one_or_none result) (\<lambda>user.
        (case user of
           None \<Rightarrow> Inl (HTTPException 401 ''User not found'')
         | Some u \<Rightarrow> Inr u))))
      of
        Inl PyJWTError \<Rightarrow> Inl (HTTPException 401 ''Invalid token'')
      | r \<Rightarrow> r)"

section \<open>The resolvers of the graph API\<close>


text \<open>\<^verbatim>\<open>json.dumps\<close> of a list of floats.\<close>

fun join :: "string \<Rightarrow> string list \<Rightarrow> string" where
  "join sep [] = []"
| "join sep [x] = x"
| "join sep (x # y # ys) = x @ sep @ join sep (y # ys)"

definition json_dumps :: "('f, 'req) libs \<Rightarrow> 'f list \<Rightarrow> py_str" where
  "json_dumps lib v = py (''['' @ join '', '' (map (float_repr lib) v) @ '']'')"

definition create_article ::
  "('f, 'req) libs \<Rightarrow> database \<Rightarrow> py_str \<Rightarrow> py_str \<Rightarrow> int \<Rightarrow> (py_error + article) \<times> database"
where
  "create_article lib db title' content' category_id' =
     (case model_encode lib content' of
        Inl e \<Rightarrow> (Inl e, db)
      | Inr embedding_vector \<Rightarrow>
          (let article = \<lparr>a_id = None, title = Some title', content = Some content',
                          vector = Some (json_dumps lib embedding_vector),
                          search_text = None, category_id = Some category_id'\<rparr>
           in case commit_article db article of
                (Inl e, db') \<Rightarrow> (Inl e, db')
              | (Inr row, db') \<Rightarrow> (refresh_article db' row, db')))"

definition register_user ::
  "('f, 'req) libs \<Rightarrow> py_bytes \<Rightarrow> database \<Rightarrow> py_str \<Rightarrow> py_str \<Rightarrow> (py_error + user) \<times> database"
where
  "register_user lib salt db username' password =
     (case hash_password lib salt password of
        Inl e \<Rightarrow> (Inl e, db)
      | Inr h \<Rightarrow>
          (let user = \<lparr>u_id = None, username = Some username', password_hash = Some h,
                       role = None\<rparr>
           in case commit_user db user of
                (Inl e, db') \<Rightarrow> (Inl e, db')
              | (Inr row, db') \<Rightarrow> (refresh_user db' row, db')))"

section \<open>The plain routes\<close>

datatype pyval = PyStr py_str | PyUser user

datatype body = JSON "string \<rightharpoonup> pyval" | Text string

record response =
  status_code :: nat
  body :: body

definition protected_route :: "user \<Rightarrow> (string \<rightharpoonup> pyval)" where
  "protected_route user =
     [''message'' \<mapsto> PyStr (py ''You have access''), ''user'' \<mapsto> PyUser user]"

definition health_check :: "string \<rightharpoonup> pyval" where
  "health_check = [''status'' \<mapsto> PyStr (py ''OK'')]"

text \<open>
  What FastAPI answers: 200 with the returned value, the status and detail of an
  \<^verbatim>\<open>HTTPException\<close>, and 500 for any other exception.
\<close>

definition respond :: "py_error + (string \<rightharpoonup> pyval) \<Rightarrow> response" where
  "respond r =
     (case r of
        Inr d \<Rightarrow> \<lparr>status_code = 200, body = JSON d\<rparr>
      | Inl (HTTPException code detail) \<Rightarrow>
          \<lparr>status_code = code, body = JSON [''detail'' \<mapsto> PyStr (py detail)]\<rparr>
      | Inl _ \<Rightarrow> \<lparr>status_code = 500, body = Text ''Internal Server Error''\<rparr>)"

datatype route = GET_protected | GET_health

definition app :: "('f, 'req) libs \<Rightarrow> database \<Rightarrow> route \<Rightarrow> 'req \<Rightarrow> response" where
  "app lib db route req =
     (case route of
        GET_protected \<Rightarrow>
          respond (and_then (oauth2_scheme lib req) (\<lambda>token.
                   and_then (get_current_user lib db token) (\<lambda>user.
                   Inr (protected_route user))))
      | GET_health \<Rightarrow> respond (Inr health_check))"

section \<open>Notions used to state the properties\<close>

text \<open>A string without lone surrogates, the strings that \<^verbatim>\<open>str.encode()\<close> accepts.\<close>

definition scalar_str :: "py_str \<Rightarrow> bool" where
  "scalar_str s = list_all scalar_value s"

text \<open>The expression \<^verbatim>\<open>verify_password(p1, hash_password(p2))\<close>.\<close>

definition verify_after_hash ::
  "('f, 'req) libs \<Rightarrow> py_bytes \<Rightarrow> py_str \<Rightarrow> py_str \<Rightarrow> py_error + bool"
where
  "verify_after_hash lib salt p1 p2 =
     and_then (hash_password lib salt p2) (verify_password lib p1)"

text \<open>
  What is assumed of \<^verbatim>\<open>bcrypt\<close> where a property needs it: \<^verbatim>\<open>checkpw\<close> accepts a password
  together with the hash that \<^verbatim>\<open>hashpw\<close> made of it; and no hash is longer than \<open>n\<close>
  bytes (a bcrypt hash has 60).
\<close>

definition checkpw_accepts_hashpw :: "('f, 'req) libs \<Rightarrow> bool" where
  "checkpw_accepts_hashpw lib \<longleftrightarrow>
     (\<forall>p salt h. hashpw lib p salt = Inr h \<longrightarrow> checkpw lib p h = Inr True)"

definition hashes_bounded :: "('f, 'req) libs \<Rightarrow> nat \<Rightarrow> bool" where
  "hashes_bounded lib n \<longleftrightarrow> (\<forall>p salt h. hashpw lib p salt = Inr h \<longrightarrow> length h \<le> n)"


text \<open>
  An instance of the library interface that is small enough to evaluate. It is none of
  the real libraries: it serves the closed examples, which show that what the theorems
  assume can be met. Its hash is the salt followed by the password, its token the key,
  a dot and the subject, its embedding has two components, and its request is the
  bearer token itself.
\<close>

definition demo_libs :: "(int, py_str option) libs" where
  "demo_libs =
     \<lparr>hashpw = (\<lambda>p salt. Inr (salt @ p)),
      checkpw = (\<lambda>p h. Inr (length p \<le> length h \<and> drop (length h - length p) h = p)),
      jwt_encode = (\<lambda>d key alg.
        case d (py ''sub'') of Some (JStr s) \<Rightarrow> Inr (key @ py ''.'' @ s) | _ \<Rightarrow> Inl TypeError),
      jwt_decode = (\<lambda>token key algs.
        if take (length key + 1) token = key @ py ''.''
        then Inr [py ''sub'' \<mapsto> JStr (drop (length key + 1) token)]
        else Inl PyJWTError),
      model_encode = (\<lambda>s. Inr [int (length s), 1]),
      float_repr = (\<lambda>x. ''0.5''),
      bearer_token = (\<lambda>req. req)\<rparr>"

definition alice :: user where
  "alice = \<lparr>u_id = Some 1, username = Some (py ''alice''),
            password_hash = Some (py ''$2b$12$saltsecret''), role = Some (py ''user'')\<rparr>"

definition demo_store :: store where
  "demo_store =
     \<lparr>users = [alice],
      categories = [\<lparr>c_id = Some 1, name = Some (py ''news'')\<rparr>,
                    \<lparr>c_id = Some 2, name = Some (py ''tech'')\<rparr>],
      articles = [],
      users_id_seq = 2, categories_id_seq = 3, articles_id_seq = 1\<rparr>"

section \<open>Sequencing\<close>

lemma and_then_Inl [simp]: "and_then (Inl e) f = Inl e"
  by (simp add: and_then_def)

lemma and_then_Inr [simp]: "and_then (Inr x) f = f x"
  by (simp add: and_then_def)

lemma and_then_eq_Inr: "and_then r f = Inr y \<longleftrightarrow> (\<exists>x. r = Inr x \<and> f x = Inr y)"
  by (cases r) simp_all

section \<open>The UTF-8 codec\<close>

subsection \<open>Encoding succeeds exactly on strings without lone surrogates\<close>

lemma encode_cp_error: "encode_cp c = Inl e \<Longrightarrow> e = UnicodeEncodeError"
  by (auto simp: encode_cp_def split: if_splits)

lemma encode_cp_scalar: "(\<exists>bs. encode_cp c = Inr bs) \<longleftrightarrow> scalar_value c"
  by (auto simp: encode_cp_def scalar_value_def surrogate_def)

lemma str_encode_error: "str_encode s = Inl e \<Longrightarrow> e = UnicodeEncodeError"
  by (induction s) (auto split: sum.splits dest: encode_cp_error)

lemma str_encode_scalar: "(\<exists>bs. str_encode s = Inr bs) \<longleftrightarrow> scalar_str s"
proof (induction s)
  case Nil
  show ?case by (simp add: scalar_str_def)
next
  case (Cons c cs)
  show ?case
    using Cons.IH encode_cp_scalar [of c] by (auto simp: scalar_str_def split: sum.splits)
qed

lemma str_encode_not_scalar: "\<not> scalar_str s \<Longrightarrow> str_encode s = Inl UnicodeEncodeError"
  using str_encode_scalar [of s] str_encode_error [of s] by (cases "str_encode s") auto

lemma not_scalar_DC80: "\<not> scalar_str [0xDC80]"
  by (simp add: scalar_str_def scalar_value_def surrogate_def)

lemma str_encode_DC80: "str_encode [0xDC80] = Inl UnicodeEncodeError"
  by (rule str_encode_not_scalar [OF not_scalar_DC80])

subsection \<open>Encoding a decoded string gives the bytes back\<close>

lemma digit64: "(l::nat) < 64 \<Longrightarrow> (q * 64 + l) div 64 = q \<and> (q * 64 + l) mod 64 = l"
  by simp

lemma byte_back: "n = unat (b :: 8 word) \<Longrightarrow> of_nat n = b"
  by simp

lemma encode_cp_1: "unat b0 < 0x80 \<Longrightarrow> encode_cp (unat b0) = Inr [b0]"
  by (simp add: encode_cp_def)

lemma encode_cp_2:
  assumes "0xC0 \<le> unat b0" "unat b0 < 0xE0" "continuation b1"
    and c: "c = (unat b0 - 0xC0) * 64 + (unat b1 - 0x80)" and "0x80 \<le> c"
  shows "encode_cp c = Inr [b0, b1]"
proof -
  define h l where "h = unat b0 - 0xC0" and "l = unat b1 - 0x80"
  have l: "l < 64" and h: "h < 32"
    using assms(1-3) by (auto simp: continuation_def l_def h_def)
  have b0: "unat b0 = 0xC0 + h" and b1: "unat b1 = 0x80 + l"
    using assms(1-3) by (auto simp: continuation_def l_def h_def)
  have c': "c = h * 64 + l" by (simp add: c h_def l_def)
  have "c div 64 = h" "c mod 64 = l" "c < 0x800" using l h by (simp_all add: c')
  then show ?thesis using \<open>0x80 \<le> c\<close> b0 b1
    by (simp add: encode_cp_def byte_back del: of_nat_add)
qed

lemma encode_cp_3:
  assumes "0xE0 \<le> unat b0" "unat b0 < 0xF0" "continuation b1" "continuation b2"
    and c: "c = (unat b0 - 0xE0) * 4096 + (unat b1 - 0x80) * 64 + (unat b2 - 0x80)"
    and "0x800 \<le> c" "\<not> surrogate c"
  shows "encode_cp c = Inr [b0, b1, b2]"
proof -
  define h m l where "h = unat b0 - 0xE0" and "m = unat b1 - 0x80" and "l = unat b2 - 0x80"
  have l: "l < 64" and m: "m < 64" and h: "h < 16"
    using assms(1-4) by (auto simp: continuation_def l_def h_def m_def)
  have b0: "unat b0 = 0xE0 + h" and b1: "unat b1 = 0x80 + m" and b2: "unat b2 = 0x80 + l"
    using assms(1-4) by (auto simp: continuation_def l_def h_def m_def)
  have c': "c = h * 4096 + m * 64 + l" by (simp add: c h_def l_def m_def)
  have e: "c = (h * 64 + m) * 64 + l" by (simp add: c')
  have d1: "c div 64 = h * 64 + m" and m1: "c mod 64 = l"
    using digit64 [OF l, of "h * 64 + m"] by (simp_all add: e)
  have m2: "c div 64 mod 64 = m" and d2: "c div 64 div 64 = h"
    using digit64 [OF m, of h] by (simp_all add: d1)
  have "c div 4096 = c div (64 * 64)" by simp
  then have d3: "c div 4096 = h" unfolding div_mult2_eq by (simp add: d2)
  have "c < 0x10000" using l h m by (simp add: c')
  with d3 m2 m1 show ?thesis using \<open>0x800 \<le> c\<close> \<open>\<not> surrogate c\<close> b0 b1 b2
    by (simp add: encode_cp_def byte_back del: of_nat_add)
qed

lemma encode_cp_4:
  assumes "0xF0 \<le> unat b0" "unat b0 < 0xF8" "continuation b1" "continuation b2"
    "continuation b3"
    and c: "c = (unat b0 - 0xF0) * 262144 + (unat b1 - 0x80) * 4096
                + (unat b2 - 0x80) * 64 + (unat b3 - 0x80)"
    and "0x10000 \<le> c" "c < 0x110000"
  shows "encode_cp c = Inr [b0, b1, b2, b3]"
proof -
  define h m n l where "h = unat b0 - 0xF0" and "m = unat b1 - 0x80"
    and "n = unat b2 - 0x80" and "l = unat b3 - 0x80"
  have l: "l < 64" and m: "m < 64" and n: "n < 64" and h: "h < 8"
    using assms(1-5) by (auto simp: continuation_def l_def h_def m_def n_def)
  have b0: "unat b0 = 0xF0 + h" and b1: "unat b1 = 0x80 + m" and b2: "unat b2 = 0x80 + n"
    and b3: "unat b3 = 0x80 + l"
    using assms(1-5) by (auto simp: continuation_def l_def h_def m_def n_def)
  have c': "c = h * 262144 + m * 4096 + n * 64 + l" by (simp add: c h_def l_def m_def n_def)
  have e: "c = ((h * 64 + m) * 64 + n) * 64 + l" by (simp add: c')
  have d1: "c div 64 = (h * 64 + m) * 64 + n" and m1: "c mod 64 = l"
    using digit64 [OF l, of "(h * 64 + m) * 64 + n"] by (simp_all add: e)
  have d2: "c div 64 div 64 = h * 64 + m" and m2: "c div 64 mod 64 = n"
    using digit64 [OF n, of "h * 64 + m"] by (simp_all add: d1)
  have d3: "c div 64 div 64 div 64 = h" and m3: "c div 64 div 64 mod 64 = m"
    using digit64 [OF m, of h] by (simp_all add: d2)
  have "c div 4096 = c div (64 * 64)" "c div 262144 = c div (64 * 64 * 64)" by simp_all
  then have d4: "c div 4096 = c div 64 div 64" "c div 262144 = c div 64 div 64 div 64"
    unfolding div_mult2_eq by simp_all
  have "c div 262144 = h" "c div 4096 mod 64 = m" "c div 64 mod 64 = n" "c mod 64 = l"
    by (simp_all add: d4 d3 m3 m2 m1)
  moreover have "\<not> surrogate c" using \<open>0x10000 \<le> c\<close> by (simp add: surrogate_def)
  ultimately show ?thesis using \<open>0x10000 \<le> c\<close> \<open>c < 0x110000\<close> b0 b1 b2 b3
    by (simp add: encode_cp_def byte_back del: of_nat_add)
qed

lemma decode_1:
  "unat b0 < 0x80 \<Longrightarrow> bytes_decode (b0 # bs) = Inr s \<Longrightarrow>
     \<exists>cs. bytes_decode bs = Inr cs \<and> s = unat b0 # cs"
  by (simp split: sum.splits)

lemma decode_2:
  assumes "0xC0 \<le> unat b0" "unat b0 < 0xE0" "bytes_decode (b0 # bs) = Inr s"
  shows "\<exists>b1 r cs. bs = b1 # r \<and> continuation b1
           \<and> 0x80 \<le> (unat b0 - 0xC0) * 64 + (unat b1 - 0x80)
           \<and> bytes_decode r = Inr cs \<and> s = ((unat b0 - 0xC0) * 64 + (unat b1 - 0x80)) # cs"
proof (cases bs)
  case Nil
  with assms show ?thesis by simp
next
  case (Cons b1 r)
  with assms show ?thesis
    by (simp add: Let_def split: if_splits sum.splits)
qed

lemma decode_3:
  assumes "0xE0 \<le> unat b0" "unat b0 < 0xF0" "bytes_decode (b0 # bs) = Inr s"
  shows "\<exists>b1 b2 r cs c. bs = b1 # b2 # r \<and> continuation b1 \<and> continuation b2
           \<and> c = (unat b0 - 0xE0) * 4096 + (unat b1 - 0x80) * 64 + (unat b2 - 0x80)
           \<and> 0x800 \<le> c \<and> \<not> surrogate c \<and> bytes_decode r = Inr cs \<and> s = c # cs"
proof (cases bs)
  case Nil
  with assms show ?thesis by simp
next
  case (Cons b1 r1)
  show ?thesis
  proof (cases r1)
    case Nil
    with Cons assms show ?thesis by simp
  next
    case (Cons b2 r)
    with \<open>bs = b1 # r1\<close> assms show ?thesis
      by (simp add: Let_def split: if_splits sum.splits)
  qed
qed

lemma decode_4:
  assumes "0xF0 \<le> unat b0" "unat b0 < 0xF8" "bytes_decode (b0 # bs) = Inr s"
  shows "\<exists>b1 b2 b3 r cs c. bs = b1 # b2 # b3 # r \<and> continuation b1 \<and> continuation b2
           \<and> continuation b3
           \<and> c = (unat b0 - 0xF0) * 262144 + (unat b1 - 0x80) * 4096
                  + (unat b2 - 0x80) * 64 + (unat b3 - 0x80)
           \<and> 0x10000 \<le> c \<and> c < 0x110000 \<and> bytes_decode r = Inr cs \<and> s = c # cs"
proof (cases bs)
  case Nil
  with assms show ?thesis by simp
next
  case (Cons b1 r1)
  show ?thesis
  proof (cases r1)
    case Nil
    with Cons assms show ?thesis by simp
  next
    case (Cons b2 r2)
    show ?thesis
    proof (cases r2)
      case Nil
      with Cons \<open>bs = b1 # r1\<close> assms show ?thesis by simp
    next
      case (Cons b3 r)
      with \<open>r1 = b2 # r2\<close> \<open>bs = b1 # r1\<close> assms show ?thesis
        by (simp add: Let_def split: if_splits sum.splits)
    qed
  qed
qed

lemma decode_bad:
  "0x80 \<le> unat b0 \<Longrightarrow> unat b0 < 0xC0 \<or> 0xF8 \<le> unat b0 \<Longrightarrow>
     bytes_decode (b0 # bs) = Inl UnicodeDecodeError"
  by auto

lemma encode_decoded: "bytes_decode bs = Inr s \<Longrightarrow> str_encode s = Inr bs"
proof (induction "length bs" arbitrary: bs s rule: less_induct)
  case less
  show ?case
  proof (cases bs)
    case Nil
    with less.prems show ?thesis by simp
  next
    case (Cons b0 bs')
    consider (one) "unat b0 < 0x80"
      | (two) "0xC0 \<le> unat b0" "unat b0 < 0xE0"
      | (three) "0xE0 \<le> unat b0" "unat b0 < 0xF0"
      | (four) "0xF0 \<le> unat b0" "unat b0 < 0xF8"
      | (bad) "0x80 \<le> unat b0" "unat b0 < 0xC0 \<or> 0xF8 \<le> unat b0"
      by linarith
    then show ?thesis
    proof cases
      case one
      from decode_1 [OF one less.prems [unfolded Cons]]
      obtain cs where r: "bytes_decode bs' = Inr cs" and s: "s = unat b0 # cs" by blast
      have "str_encode cs = Inr bs'" using less.hyps [OF _ r] Cons by simp
      then show ?thesis using one by (simp add: s Cons encode_cp_1)
    next
      case two
      from decode_2 [OF two less.prems [unfolded Cons]]
      obtain b1 r cs where bs: "bs' = b1 # r" and ok: "continuation b1"
        "0x80 \<le> (unat b0 - 0xC0) * 64 + (unat b1 - 0x80)"
        and r: "bytes_decode r = Inr cs"
        and s: "s = ((unat b0 - 0xC0) * 64 + (unat b1 - 0x80)) # cs" by blast
      have "str_encode cs = Inr r" using less.hyps [OF _ r] Cons bs by simp
      moreover have "encode_cp ((unat b0 - 0xC0) * 64 + (unat b1 - 0x80)) = Inr [b0, b1]"
        by (rule encode_cp_2 [OF two ok(1) refl ok(2)])
      ultimately show ?thesis by (simp add: s bs Cons)
    next
      case three
      from decode_3 [OF three less.prems [unfolded Cons]]
      obtain b1 b2 r cs c where bs: "bs' = b1 # b2 # r"
        and ok: "continuation b1" "continuation b2"
        and c: "c = (unat b0 - 0xE0) * 4096 + (unat b1 - 0x80) * 64 + (unat b2 - 0x80)"
        and rng: "0x800 \<le> c" "\<not> surrogate c"
        and r: "bytes_decode r = Inr cs" and s: "s = c # cs" by blast
      have "str_encode cs = Inr r" using less.hyps [OF _ r] Cons bs by simp
      moreover have "encode_cp c = Inr [b0, b1, b2]"
        by (rule encode_cp_3 [OF three ok c rng])
      ultimately show ?thesis by (simp add: s bs Cons)
    next
      case four
      from decode_4 [OF four less.prems [unfolded Cons]]
      obtain b1 b2 b3 r cs c where bs: "bs' = b1 # b2 # b3 # r"
        and ok: "continuation b1" "continuation b2" "continuation b3"
        and c: "c = (unat b0 - 0xF0) * 262144 + (unat b1 - 0x80) * 4096
                    + (unat b2 - 0x80) * 64 + (unat b3 - 0x80)"
        and rng: "0x10000 \<le> c" "c < 0x110000"
        and r: "bytes_decode r = Inr cs" and s: "s = c # cs" by blast
      have "str_encode cs = Inr r" using less.hyps [OF _ r] Cons bs by simp
      moreover have "encode_cp c = Inr [b0, b1, b2, b3]"
        by (rule encode_cp_4 [OF four ok c rng])
      ultimately show ?thesis by (simp add: s bs Cons)
    next
      case bad
      from decode_bad [OF bad] less.prems Cons show ?thesis by simp
    qed
  qed
qed

section \<open>Passwords\<close>

subsection \<open>\<^verbatim>\<open>verify_password\<close>\<close>

lemma verify_password_scalar:
  assumes "scalar_str pw" "scalar_str h"
  shows "\<exists>p hb. str_encode pw = Inr p \<and> str_encode h = Inr hb
           \<and> verify_password lib pw h = checkpw lib p hb"
proof -
  from assms obtain p hb where "str_encode pw = Inr p" "str_encode h = Inr hb"
    using str_encode_scalar by blast
  then show ?thesis by (simp add: verify_password_def)
qed

lemma verify_password_not_scalar:
  assumes "\<not> (scalar_str pw \<and> scalar_str h)"
  shows "verify_password lib pw h = Inl UnicodeEncodeError"
proof (cases "scalar_str pw")
  case False
  then show ?thesis by (simp add: verify_password_def str_encode_not_scalar)
next
  case True
  with assms have "\<not> scalar_str h" by simp
  moreover from True obtain p where "str_encode pw = Inr p"
    using str_encode_scalar by blast
  ultimately show ?thesis by (simp add: verify_password_def str_encode_not_scalar)
qed

text \<open>
  Claim C5, as amended. \<^verbatim>\<open>verify_password\<close> catches nothing. When neither string holds a
  lone surrogate, both are encoded and the result is the result of \<^verbatim>\<open>bcrypt.checkpw\<close> on
  the encodings: a boolean when \<^verbatim>\<open>checkpw\<close> returns one, and the exception that
  \<^verbatim>\<open>checkpw\<close> raises otherwise, so a malformed hash gives \<open>False\<close> only if the library
  answers it rather than raising. When either string holds a lone surrogate, the call
  raises \<^verbatim>\<open>UnicodeEncodeError\<close>.
\<close>

theorem verify_password_delegates:
  "(scalar_str pw \<and> scalar_str h \<longrightarrow>
      (\<exists>p hb. str_encode pw = Inr p \<and> str_encode h = Inr hb
         \<and> verify_password lib pw h = checkpw lib p hb))
   \<and> (\<not> (scalar_str pw \<and> scalar_str h) \<longrightarrow>
        verify_password lib pw h = Inl UnicodeEncodeError)"
  using verify_password_scalar verify_password_not_scalar by blast

lemma demo_scalar: "scalar_str (py ''secret'')" "scalar_str (py ''$2b$12$saltsecret'')"
  by (simp_all add: scalar_str_def scalar_value_def surrogate_def py_def)

text \<open>
  The amended C5 at work: a password and a hash that encode, with the library's answer
  returned, and a password with the lone surrogate \<open>U+DC80\<close>.
\<close>

theorem verify_password_delegates_witness:
  "(\<exists>p hb. str_encode (py ''secret'') = Inr p \<and> str_encode (py ''$2b$12$saltsecret'') = Inr hb
      \<and> verify_password demo_libs (py ''secret'') (py ''$2b$12$saltsecret'')
          = checkpw demo_libs p hb)
   \<and> verify_password demo_libs (py ''secret'') (py ''$2b$12$saltsecret'') = Inr True
   \<and> verify_password demo_libs [0xDC80] (py ''secret'') = Inl UnicodeEncodeError"
proof -
  have a: "verify_password demo_libs (py ''secret'') (py ''$2b$12$saltsecret'') = Inr True"
    by (simp add: verify_password_def demo_libs_def py_def encode_cp_def)
  show ?thesis
    using verify_password_delegates [of "py ''secret''" "py ''$2b$12$saltsecret''" demo_libs]
      verify_password_delegates [of "[0xDC80]" "py ''secret''" demo_libs]
      demo_scalar not_scalar_DC80 a
    by simp
qed

text \<open>
  Claim C5 as stated ("for every pair of strings a boolean is returned and nothing is
  thrown") fails. The string made of the lone surrogate \<open>U+DC80\<close>, which a JSON request
  body can carry as an escape, makes \<^verbatim>\<open>password.encode()\<close> raise, whatever the library
  and the hash. And whatever \<^verbatim>\<open>checkpw\<close> raises on the bytes of a malformed hash comes
  out of \<^verbatim>\<open>verify_password\<close> unchanged.
\<close>

theorem verify_password_raises:
  "(\<forall>(lib :: ('f, 'req) libs) h. verify_password lib [0xDC80] h = Inl UnicodeEncodeError)
   \<and> (\<forall>(lib :: ('f, 'req) libs) e.
        verify_password (lib\<lparr>checkpw := (\<lambda>p h. Inl e)\<rparr>) (py ''secret'') (py ''not-a-hash'')
          = Inl e)"
proof (intro conjI allI)
  fix lib :: "('f, 'req) libs" and h
  show "verify_password lib [0xDC80] h = Inl UnicodeEncodeError"
    by (simp add: verify_password_not_scalar not_scalar_DC80)
next
  fix lib :: "('f, 'req) libs" and e
  have "scalar_str (py ''secret'')" "scalar_str (py ''not-a-hash'')"
    by (simp_all add: scalar_str_def scalar_value_def surrogate_def py_def)
  from verify_password_scalar [OF this, of "lib\<lparr>checkpw := (\<lambda>p h. Inl e)\<rparr>"]
  obtain p hb where
    "verify_password (lib\<lparr>checkpw := (\<lambda>p h. Inl e)\<rparr>) (py ''secret'') (py ''not-a-hash'')
       = checkpw (lib\<lparr>checkpw := (\<lambda>p h. Inl e)\<rparr>) p hb"
    by blast
  then show "verify_password (lib\<lparr>checkpw := (\<lambda>p h. Inl e)\<rparr>) (py ''secret'') (py ''not-a-hash'')
          = Inl e"
    by simp
qed

subsection \<open>Verifying against a fresh hash\<close>

lemma hash_password_Inr:
  "hash_password lib salt P = Inr H \<longleftrightarrow>
     (\<exists>p h. str_encode P = Inr p \<and> hashpw lib p salt = Inr h \<and> bytes_decode h = Inr H)"
  by (auto simp: hash_password_def and_then_eq_Inr)

lemma verify_fresh_hash:
  assumes "checkpw_accepts_hashpw lib" "hash_password lib salt P = Inr H"
  shows "verify_password lib P H = Inr True"
proof -
  from assms(2) obtain p h where p: "str_encode P = Inr p" and h: "hashpw lib p salt = Inr h"
    and H: "bytes_decode h = Inr H"
    unfolding hash_password_Inr by blast
  have "str_encode H = Inr h" by (rule encode_decoded [OF H])
  moreover have "checkpw lib p h = Inr True"
    using assms(1) h unfolding checkpw_accepts_hashpw_def by blast
  ultimately show ?thesis using p by (simp add: verify_password_def)
qed

lemma verify_other_hash:
  assumes "hash_password lib salt P2 = Inr H" "str_encode P1 = Inr p1"
  shows "\<exists>p2 h. str_encode P2 = Inr p2 \<and> hashpw lib p2 salt = Inr h \<and> str_encode H = Inr h
           \<and> verify_password lib P1 H = checkpw lib p1 h"
proof -
  from assms(1) obtain p2 h where p: "str_encode P2 = Inr p2" and h: "hashpw lib p2 salt = Inr h"
    and H: "bytes_decode h = Inr H"
    unfolding hash_password_Inr by blast
  have "str_encode H = Inr h" by (rule encode_decoded [OF H])
  then show ?thesis using p h assms(2) by (simp add: verify_password_def)
qed

text \<open>
  Claim C1, as amended. Let \<^verbatim>\<open>checkpw\<close> accept a password together with the hash that
  \<^verbatim>\<open>hashpw\<close> made of it. Then every hash \<open>H\<close> that \<^verbatim>\<open>hash_password\<close> returns for a
  password \<open>P\<close> verifies: \<^verbatim>\<open>verify_password(P, H)\<close> is \<open>True\<close> (the decoded hash encodes
  back to the bytes \<^verbatim>\<open>hashpw\<close> returned). For another password \<open>P1\<close> that encodes, the
  result against the hash of \<open>P2\<close> is the answer of \<^verbatim>\<open>checkpw\<close> for the bytes of \<open>P1\<close>
  and the hash bytes of \<open>P2\<close>: it is \<open>False\<close> when the library rejects the pair, which
  no library can do for every pair of distinct passwords.
\<close>

theorem verify_password_of_hash:
  "(checkpw_accepts_hashpw lib \<and> hash_password lib salt P = Inr H \<longrightarrow>
      verify_password lib P H = Inr True)
   \<and> (hash_password lib salt P2 = Inr H2 \<and> str_encode P1 = Inr p1 \<longrightarrow>
        (\<exists>p2 h. str_encode P2 = Inr p2 \<and> hashpw lib p2 salt = Inr h \<and> str_encode H2 = Inr h
           \<and> verify_password lib P1 H2 = checkpw lib p1 h))"
  using verify_fresh_hash verify_other_hash by blast

lemma demo_accepts: "checkpw_accepts_hashpw demo_libs"
  by (auto simp: checkpw_accepts_hashpw_def demo_libs_def)

lemma demo_hash:
  "hash_password demo_libs [36, 50, 98, 36, 49, 50, 36, 115, 97, 108, 116] (py ''secret'')
     = Inr (py ''$2b$12$saltsecret'')"
  by (simp add: hash_password_def demo_libs_def py_def encode_cp_def)

text \<open>
  The amended C1 at work: the hash of \<open>secret\<close> verifies for \<open>secret\<close>, and the check of
  \<open>guess\<close> against it is the library's.
\<close>

theorem verify_password_of_hash_witness:
  "checkpw_accepts_hashpw demo_libs
   \<and> hash_password demo_libs [36, 50, 98, 36, 49, 50, 36, 115, 97, 108, 116] (py ''secret'')
       = Inr (py ''$2b$12$saltsecret'')
   \<and> verify_password demo_libs (py ''secret'') (py ''$2b$12$saltsecret'') = Inr True
   \<and> str_encode (py ''guess'') = Inr [103, 117, 101, 115, 115]
   \<and> (\<exists>p2 h. str_encode (py ''secret'') = Inr p2
         \<and> hashpw demo_libs p2 [36, 50, 98, 36, 49, 50, 36, 115, 97, 108, 116] = Inr h
         \<and> str_encode (py ''$2b$12$saltsecret'') = Inr h
         \<and> verify_password demo_libs (py ''guess'') (py ''$2b$12$saltsecret'')
             = checkpw demo_libs [103, 117, 101, 115, 115] h)"
proof -
  have g: "str_encode (py ''guess'') = Inr [103, 117, 101, 115, 115]"
    by (simp add: py_def encode_cp_def)
  show ?thesis
    using verify_password_of_hash [of demo_libs "[36, 50, 98, 36, 49, 50, 36, 115, 97, 108, 116]"
        "py ''secret''" "py ''$2b$12$saltsecret''" "py ''secret''" "py ''$2b$12$saltsecret''"
        "py ''guess''" "[103, 117, 101, 115, 115]"]
      demo_accepts demo_hash g
    by blast
qed

lemma finite_bounded_bytes: "finite {h :: py_bytes. length h \<le> n}"
  using finite_lists_length_le [of "UNIV :: 8 word set" n] by simp

lemma infinite_scalar_strs: "infinite {P. scalar_str P}"
proof -
  have "inj (\<lambda>k. replicate k (97 :: nat))"
    by (rule injI) (metis length_replicate)
  then have "infinite (range (\<lambda>k. replicate k (97 :: nat)))"
    by (rule range_inj_infinite)
  moreover have "range (\<lambda>k. replicate k (97 :: nat)) \<subseteq> {P. scalar_str P}"
    by (auto simp: scalar_str_def list_all_iff scalar_value_def surrogate_def)
  ultimately show ?thesis by (rule infinite_super [rotated])
qed

lemma no_injective_hash:
  assumes bnd: "hashes_bounded lib n"
    and same: "\<forall>P. scalar_str P \<longrightarrow> verify_after_hash lib salt P P = Inr True"
    and other: "\<forall>P1 P2. scalar_str P1 \<and> scalar_str P2 \<and> P1 \<noteq> P2
                  \<longrightarrow> verify_after_hash lib salt P1 P2 = Inr False"
  shows False
proof -
  let ?S = "{P. scalar_str P}"
  let ?f = "hash_password lib salt"
  have ok: "\<exists>H. ?f P = Inr H \<and> verify_password lib P H = Inr True" if "scalar_str P" for P
    using same that by (auto simp: verify_after_hash_def and_then_eq_Inr)
  have "inj_on ?f ?S"
  proof (rule inj_onI)
    fix P1 P2 assume P: "P1 \<in> ?S" "P2 \<in> ?S" and eq: "?f P1 = ?f P2"
    show "P1 = P2"
    proof (rule ccontr)
      assume ne: "P1 \<noteq> P2"
      from ok [of P1] P obtain H where H: "?f P1 = Inr H" "verify_password lib P1 H = Inr True"
        by auto
      then have "verify_after_hash lib salt P1 P2 = Inr True"
        using eq by (simp add: verify_after_hash_def)
      moreover have "verify_after_hash lib salt P1 P2 = Inr False"
        using other P ne by simp
      ultimately show False by simp
    qed
  qed
  moreover have "?f ` ?S \<subseteq> bytes_decode ` {h. length h \<le> n}"
  proof
    fix r assume "r \<in> ?f ` ?S"
    then obtain P where P: "scalar_str P" and r: "r = ?f P" by auto
    from ok [OF P] obtain H where "?f P = Inr H" by blast
    then obtain p h where "hashpw lib p salt = Inr h" "bytes_decode h = Inr H"
      unfolding hash_password_Inr by blast
    moreover from this bnd have "length h \<le> n" unfolding hashes_bounded_def by blast
    ultimately show "r \<in> bytes_decode ` {h. length h \<le> n}"
      using r \<open>?f P = Inr H\<close> by (auto intro!: image_eqI [where x = h])
  qed
  then have "finite (?f ` ?S)"
    by (rule finite_subset) (simp add: finite_bounded_bytes)
  ultimately have "finite ?S" by (rule finite_imageD [rotated])
  with infinite_scalar_strs show False by simp
qed

text \<open>
  Claim C1 as stated fails twice. For the password made of the lone surrogate \<open>U+DC80\<close>
  no hash is produced: the expression \<^verbatim>\<open>verify_password(P, hash_password(P))\<close> raises
  \<^verbatim>\<open>UnicodeEncodeError\<close>, for every library and salt. And even among the passwords
  that encode, no library whose hashes have a bounded length (60 bytes for bcrypt) can
  both accept every password against its own hash and reject every other password:
  infinitely many passwords share finitely many hashes, so two distinct ones collide.
\<close>

theorem verify_after_hash_not_total:
  "(\<forall>(lib :: ('f, 'req) libs) salt.
      verify_after_hash lib salt [0xDC80] [0xDC80] = Inl UnicodeEncodeError)
   \<and> (\<forall>(lib :: ('f, 'req) libs) salt n.
        \<not> (hashes_bounded lib n
           \<and> (\<forall>P. scalar_str P \<longrightarrow> verify_after_hash lib salt P P = Inr True)
           \<and> (\<forall>P1 P2. scalar_str P1 \<and> scalar_str P2 \<and> P1 \<noteq> P2
                 \<longrightarrow> verify_after_hash lib salt P1 P2 = Inr False)))"
proof (intro conjI allI)
  fix lib :: "('f, 'req) libs" and salt
  show "verify_after_hash lib salt [0xDC80] [0xDC80] = Inl UnicodeEncodeError"
    by (simp add: verify_after_hash_def hash_password_def str_encode_DC80 del: str_encode.simps)
next
  fix lib :: "('f, 'req) libs" and salt n
  show "\<not> (hashes_bounded lib n
           \<and> (\<forall>P. scalar_str P \<longrightarrow> verify_after_hash lib salt P P = Inr True)
           \<and> (\<forall>P1 P2. scalar_str P1 \<and> scalar_str P2 \<and> P1 \<noteq> P2
                 \<longrightarrow> verify_after_hash lib salt P1 P2 = Inr False))"
    using no_injective_hash [of lib n salt] by blast
qed

section \<open>The store\<close>

lemma find_append_last:
  "\<forall>x \<in> set xs. \<not> P x \<Longrightarrow> P r \<Longrightarrow> find P (xs @ [r]) = Some r"
  by (induction xs) auto



lemma commit_user_Inr:
  assumes "commit_user db obj = (Inr row, db')" "u_id obj = None" "role obj = None"
  shows "\<exists>st. db = Reachable st
           \<and> row = obj\<lparr>u_id := Some (users_id_seq st), role := Some (py ''user'')\<rparr>
           \<and> (\<forall>r \<in> set (users st). u_id r \<noteq> Some (users_id_seq st))
           \<and> db' = Reachable (st\<lparr>users_id_seq := users_id_seq st + 1,
                                   users := users st @ [row]\<rparr>)"
  using assms
  by (cases db) (auto simp: commit_user_def Let_def split: if_splits)

lemma commit_user_Inl:
  assumes "commit_user (Reachable st) obj = (Inl e, db')" "u_id obj = None"
  shows "e = IntegrityError \<and> db' = Reachable (st\<lparr>users_id_seq := users_id_seq st + 1\<rparr>)"
  using assms by (auto simp: commit_user_def Let_def split: if_splits)

lemma commit_user_taken:
  assumes "\<exists>u \<in> set (users st). username u = Some U" "username obj = Some U" "u_id obj = None"
  shows "commit_user (Reachable st) obj
           = (Inl IntegrityError, Reachable (st\<lparr>users_id_seq := users_id_seq st + 1\<rparr>))"
  using assms by (auto simp: commit_user_def Let_def)

lemma commit_article_Inr:
  assumes "commit_article db obj = (Inr row, db')" "a_id obj = None"
  shows "\<exists>st. db = Reachable st
           \<and> row = obj\<lparr>a_id := Some (articles_id_seq st)\<rparr>
           \<and> (\<forall>r \<in> set (articles st). a_id r \<noteq> Some (articles_id_seq st))
           \<and> db' = Reachable (st\<lparr>articles_id_seq := articles_id_seq st + 1,
                                   articles := articles st @ [row]\<rparr>)"
  using assms
  by (cases db) (auto simp: commit_article_def Let_def split: if_splits)


lemma refresh_article_new:
  assumes "\<forall>r \<in> set (articles st). a_id r \<noteq> a_id row"
  shows "refresh_article (Reachable (st\<lparr>articles_id_seq := n,
                                        articles := articles st @ [row]\<rparr>)) row = Inr row"
  using find_append_last [of "articles st" "\<lambda>r. a_id r = a_id row" row] assms
  by (simp add: refresh_article_def)


lemma wf_store_users_seq:
  "wf_store st \<Longrightarrow> wf_store (st\<lparr>users_id_seq := users_id_seq st + 1\<rparr>)"
  unfolding wf_store_def by (simp, force)

lemma wf_store_articles_seq:
  "wf_store st \<Longrightarrow> wf_store (st\<lparr>articles_id_seq := articles_id_seq st + 1\<rparr>)"
  unfolding wf_store_def by (simp, force)

lemma wf_store_add_user:
  assumes wf: "wf_store st" and id: "u_id row = Some (users_id_seq st)"
    and name: "username row = None \<or> (\<forall>r \<in> set (users st). username r \<noteq> username row)"
  shows "wf_store (st\<lparr>users_id_seq := users_id_seq st + 1, users := users st @ [row]\<rparr>)"
proof -
  have old: "\<forall>u \<in> set (users st). \<exists>i. u_id u = Some i \<and> i < users_id_seq st"
    using wf by (simp add: wf_store_def)
  then have keys: "\<forall>u \<in> set (users st @ [row]). \<exists>i. u_id u = Some i \<and> i < users_id_seq st + 1"
    using id by force
  have "Some (users_id_seq st) \<notin> u_id ` set (users st)"
    using old by force
  then have ids: "distinct (map u_id (users st @ [row]))"
    using wf id by (simp add: wf_store_def)
  have "username row \<noteq> None \<longrightarrow> username row \<notin> username ` set (users st)"
    using name by force
  then have names: "distinct (filter (\<lambda>x. x \<noteq> None) (map username (users st @ [row])))"
    using wf by (simp add: wf_store_def)
  show ?thesis
    using wf keys ids names unfolding wf_store_def by simp
qed

lemma wf_store_add_article:
  assumes wf: "wf_store st" and id: "a_id row = Some (articles_id_seq st)"
    and fk: "category_id row = None \<or> (\<exists>c \<in> set (categories st). c_id c = category_id row)"
  shows "wf_store (st\<lparr>articles_id_seq := articles_id_seq st + 1,
                      articles := articles st @ [row]\<rparr>)"
proof -
  have old: "\<forall>a \<in> set (articles st). \<exists>i. a_id a = Some i \<and> i < articles_id_seq st"
    using wf by (simp add: wf_store_def)
  then have keys:
    "\<forall>a \<in> set (articles st @ [row]). \<exists>i. a_id a = Some i \<and> i < articles_id_seq st + 1"
    using id by force
  have "Some (articles_id_seq st) \<notin> a_id ` set (articles st)"
    using old by force
  then have ids: "distinct (map a_id (articles st @ [row]))"
    using wf id by (simp add: wf_store_def)
  have fks: "\<forall>a \<in> set (articles st @ [row]).
      category_id a \<noteq> None \<longrightarrow> (\<exists>c \<in> set (categories st). c_id c = category_id a)"
    using wf fk by (auto simp: wf_store_def)
  show ?thesis
    using wf keys ids fks unfolding wf_store_def by simp
qed


section \<open>\<^verbatim>\<open>register_user\<close>\<close>

lemma register_user_Inr:
  assumes "register_user lib salt db U pw = (Inr u, db')"
  shows "\<exists>st h. db = Reachable st \<and> hash_password lib salt pw = Inr h
           \<and> u = \<lparr>u_id = Some (users_id_seq st), username = Some U, password_hash = Some h,
                  role = Some (py ''user'')\<rparr>
           \<and> db' = Reachable (st\<lparr>users_id_seq := users_id_seq st + 1, users := users st @ [u]\<rparr>)"
proof -
  from assms obtain h where h: "hash_password lib salt pw = Inr h"
    by (auto simp: register_user_def split: sum.splits)
  define obj where "obj = \<lparr>u_id = None, username = Some U, password_hash = Some h, role = None\<rparr>"
  from assms h obtain row where c: "commit_user db obj = (Inr row, db')"
    and r: "refresh_user db' row = Inr u"
    by (auto simp: register_user_def obj_def split: sum.splits prod.splits)
  from commit_user_Inr [OF c] obtain st where st: "db = Reachable st"
    and row: "row = obj\<lparr>u_id := Some (users_id_seq st), role := Some (py ''user'')\<rparr>"
    and fresh: "\<forall>r \<in> set (users st). u_id r \<noteq> Some (users_id_seq st)"
    and db': "db' = Reachable (st\<lparr>users_id_seq := users_id_seq st + 1,
                                   users := users st @ [row]\<rparr>)"
    by (auto simp: obj_def)
  have "find (\<lambda>r. u_id r = u_id row) (users st @ [row]) = Some row"
    using fresh by (intro find_append_last) (simp_all add: row)
  with r have "u = row" by (simp add: refresh_user_def db')
  then show ?thesis using st h row db' by (simp add: obj_def)
qed

text \<open>
  The constraints of the store hold after a registration, whether it succeeds or not.
\<close>

lemma register_user_wf:
  assumes "wf_store st" "register_user lib salt (Reachable st) U pw = (r, Reachable st')"
  shows "wf_store st'"
proof (cases "hash_password lib salt pw")
  case (Inl e)
  with assms show ?thesis by (simp add: register_user_def)
next
  case (Inr h)
  define obj where "obj = \<lparr>u_id = None, username = Some U, password_hash = Some h, role = None\<rparr>"
  obtain c db1 where c: "commit_user (Reachable st) obj = (c, db1)"
    by (cases "commit_user (Reachable st) obj")
  with assms(2) Inr have db1: "db1 = Reachable st'"
    by (auto simp: register_user_def obj_def split: sum.splits)
  show ?thesis
  proof (cases c)
    case (Inl e)
    from commit_user_Inl [OF c [unfolded Inl]] db1
    have "st' = st\<lparr>users_id_seq := users_id_seq st + 1\<rparr>" by (simp add: obj_def)
    then show ?thesis using wf_store_users_seq [OF assms(1)] by simp
  next
    case (Inr row)
    from c Inr db1 have row: "u_id row = Some (users_id_seq st)"
      "\<forall>r \<in> set (users st). username r \<noteq> username row"
      and st': "st' = st\<lparr>users_id_seq := users_id_seq st + 1, users := users st @ [row]\<rparr>"
      by (auto simp: commit_user_def Let_def obj_def split: if_splits)
    show ?thesis unfolding st' by (rule wf_store_add_user [OF assms(1) row(1)]) (simp add: row(2))
  qed
qed

text \<open>
  Claim C10. Every user that \<^verbatim>\<open>register_user\<close> returns carries the role \<open>user\<close>, the
  column default (the mutation has no role argument), bears the given username and is a
  row of the \<open>users\<close> table afterwards.
\<close>

theorem register_user_role:
  "register_user lib salt db U pw = (Inr u, db') \<longrightarrow>
     role u = Some (py ''user'') \<and> username u = Some U
     \<and> (\<exists>st'. db' = Reachable st' \<and> u \<in> set (users st'))"
  using register_user_Inr [of lib salt db U pw u db'] by auto

lemma demo_hash_pw: "hash_password demo_libs [] (py ''pw'') = Inr (py ''pw'')"
  by (simp add: hash_password_def demo_libs_def py_def encode_cp_def)

lemma demo_register_bob:
  "register_user demo_libs [] (Reachable demo_store) (py ''bob'') (py ''pw'')
     = (Inr \<lparr>u_id = Some 2, username = Some (py ''bob''), password_hash = Some (py ''pw''),
             role = Some (py ''user'')\<rparr>,
        Reachable (demo_store\<lparr>users_id_seq := 3,
          users := [alice, \<lparr>u_id = Some 2, username = Some (py ''bob''),
                            password_hash = Some (py ''pw''), role = Some (py ''user'')\<rparr>]\<rparr>))"
  unfolding register_user_def demo_hash_pw
  by (simp add: commit_user_def refresh_user_def demo_store_def alice_def py_def Let_def)

text \<open>
  C10 at work: registering \<open>bob\<close> in a store that holds \<open>alice\<close>.
\<close>

theorem register_user_role_witness:
  "register_user demo_libs [] (Reachable demo_store) (py ''bob'') (py ''pw'')
     = (Inr \<lparr>u_id = Some 2, username = Some (py ''bob''), password_hash = Some (py ''pw''),
             role = Some (py ''user'')\<rparr>,
        Reachable (demo_store\<lparr>users_id_seq := 3,
          users := [alice, \<lparr>u_id = Some 2, username = Some (py ''bob''),
                            password_hash = Some (py ''pw''), role = Some (py ''user'')\<rparr>]\<rparr>))
   \<and> role \<lparr>u_id = Some 2, username = Some (py ''bob''), password_hash = Some (py ''pw''),
            role = Some (py ''user'')\<rparr> = Some (py ''user'')"
  using register_user_role [of demo_libs "[]" "Reachable demo_store" "py ''bob''" "py ''pw''"
      "\<lparr>u_id = Some 2, username = Some (py ''bob''), password_hash = Some (py ''pw''),
        role = Some (py ''user'')\<rparr>"] demo_register_bob
  by simp

text \<open>
  Claim C4, as amended. When the username already names a stored user,
  \<^verbatim>\<open>register_user\<close> fails and stores nothing: the three tables are as before. The
  exception is the one of \<^verbatim>\<open>hash_password\<close> when hashing fails, and otherwise
  SQLAlchemy's \<^verbatim>\<open>IntegrityError\<close>, raised by \<^verbatim>\<open>commit\<close> and passed on as it is: the code
  defines no conflict error and catches nothing.
\<close>

theorem register_user_taken:
  "(\<exists>u \<in> set (users st). username u = Some U) \<longrightarrow>
     (\<exists>e st'. register_user lib salt (Reachable st) U pw = (Inl e, Reachable st')
        \<and> e = (case hash_password lib salt pw of Inl e' \<Rightarrow> e' | Inr h \<Rightarrow> IntegrityError)
        \<and> users st' = users st \<and> categories st' = categories st \<and> articles st' = articles st)"
proof
  assume taken: "\<exists>u \<in> set (users st). username u = Some U"
  show "\<exists>e st'. register_user lib salt (Reachable st) U pw = (Inl e, Reachable st')
        \<and> e = (case hash_password lib salt pw of Inl e' \<Rightarrow> e' | Inr h \<Rightarrow> IntegrityError)
        \<and> users st' = users st \<and> categories st' = categories st \<and> articles st' = articles st"
  proof (cases "hash_password lib salt pw")
    case (Inl e)
    then show ?thesis by (simp add: register_user_def)
  next
    case (Inr h)
    then show ?thesis
      using commit_user_taken [OF taken, of "\<lparr>u_id = None, username = Some U,
        password_hash = Some h, role = None\<rparr>"]
      by (simp add: register_user_def)
  qed
qed

text \<open>
  The amended C4 at work: registering \<open>alice\<close> a second time.
\<close>

theorem register_user_taken_witness:
  "(\<exists>u \<in> set (users demo_store). username u = Some (py ''alice''))
   \<and> (\<exists>e st'. register_user demo_libs [] (Reachable demo_store) (py ''alice'') (py ''pw'')
                  = (Inl e, Reachable st')
        \<and> e = IntegrityError \<and> users st' = users demo_store)"
proof -
  have "\<exists>u \<in> set (users demo_store). username u = Some (py ''alice'')"
    by (simp add: demo_store_def alice_def)
  with register_user_taken [of demo_store "py ''alice''" demo_libs "[]" "py ''pw''"]
  show ?thesis by (auto simp: demo_hash_pw)
qed

text \<open>
  Claim C4 as stated ("fails with a domain ConflictError, not a generic fault") fails:
  registering \<open>alice\<close> a second time raises \<^verbatim>\<open>sqlalchemy.exc.IntegrityError\<close>, the
  store layer's own exception, and the only change to the store is the advanced
  sequence.
\<close>

theorem register_user_taken_raises:
  "register_user demo_libs [] (Reachable demo_store) (py ''alice'') (py ''pw'')
     = (Inl IntegrityError, Reachable (demo_store\<lparr>users_id_seq := 3\<rparr>))"
  unfolding register_user_def demo_hash_pw
  by (simp add: commit_user_def demo_store_def alice_def py_def Let_def)

section \<open>Articles\<close>



lemma create_article_Inr:
  assumes "create_article lib db T C k = (Inr a, db')"
  shows "\<exists>st v. db = Reachable st \<and> model_encode lib C = Inr v
           \<and> a = \<lparr>a_id = Some (articles_id_seq st), title = Some T, content = Some C,
                  vector = Some (json_dumps lib v), search_text = None,
                  category_id = Some k\<rparr>
           \<and> db' = Reachable (st\<lparr>articles_id_seq := articles_id_seq st + 1,
                                   articles := articles st @ [a]\<rparr>)"
proof -
  from assms obtain v where v: "model_encode lib C = Inr v"
    by (auto simp: create_article_def split: sum.splits)
  define obj where "obj = \<lparr>a_id = None, title = Some T, content = Some C,
    vector = Some (json_dumps lib v), search_text = None, category_id = Some k\<rparr>"
  from assms v obtain row where c: "commit_article db obj = (Inr row, db')"
    and r: "refresh_article db' row = Inr a"
    by (auto simp: create_article_def obj_def split: sum.splits prod.splits)
  from commit_article_Inr [OF c] obtain st where st: "db = Reachable st"
    and row: "row = obj\<lparr>a_id := Some (articles_id_seq st)\<rparr>"
    and fresh: "\<forall>r \<in> set (articles st). a_id r \<noteq> Some (articles_id_seq st)"
    and db': "db' = Reachable (st\<lparr>articles_id_seq := articles_id_seq st + 1,
                                   articles := articles st @ [row]\<rparr>)"
    by (auto simp: obj_def)
  have "refresh_article db' row = Inr row"
    unfolding db' using fresh by (intro refresh_article_new) (simp add: row)
  with r have "a = row" by simp
  then show ?thesis using st v row db' by (simp add: obj_def)
qed

text \<open>
  The constraints of the store hold after \<^verbatim>\<open>create_article\<close>, whether it succeeds or not.
\<close>

lemma create_article_wf:
  assumes "wf_store st" "create_article lib (Reachable st) T C k = (r, Reachable st')"
  shows "wf_store st'"
proof (cases "model_encode lib C")
  case (Inl e)
  with assms show ?thesis by (simp add: create_article_def)
next
  case (Inr v)
  define obj where "obj = \<lparr>a_id = None, title = Some T, content = Some C,
    vector = Some (json_dumps lib v), search_text = None, category_id = Some k\<rparr>"
  obtain c db1 where c: "commit_article (Reachable st) obj = (c, db1)"
    by (cases "commit_article (Reachable st) obj")
  with assms(2) Inr have db1: "db1 = Reachable st'"
    by (auto simp: create_article_def obj_def split: sum.splits)
  show ?thesis
  proof (cases c)
    case (Inl e)
    with c db1 have "st' = st\<lparr>articles_id_seq := articles_id_seq st + 1\<rparr>"
      by (auto simp: commit_article_def Let_def obj_def split: if_splits)
    then show ?thesis using wf_store_articles_seq [OF assms(1)] by simp
  next
    case (Inr row)
    from c Inr db1 have row: "a_id row = Some (articles_id_seq st)"
      "\<exists>c \<in> set (categories st). c_id c = category_id row"
      and st': "st' = st\<lparr>articles_id_seq := articles_id_seq st + 1,
                          articles := articles st @ [row]\<rparr>"
      by (auto simp: commit_article_def Let_def obj_def split: if_splits)
    show ?thesis unfolding st'
      by (rule wf_store_add_article [OF assms(1) row(1)]) (simp add: row(2))
  qed
qed


lemma demo_embedding: "model_encode demo_libs (py ''C'') = Inr [1, 1]"
  by (simp add: demo_libs_def py_def)

lemma demo_dumps: "json_dumps demo_libs [1, 1] = py ''[0.5, 0.5]''"
  by (simp add: json_dumps_def demo_libs_def)

lemma demo_create:
  "k = 1 \<or> k = 2 \<Longrightarrow>
   create_article demo_libs (Reachable demo_store) T (py ''C'') k
     = (Inr \<lparr>a_id = Some 1, title = Some T, content = Some (py ''C''),
             vector = Some (py ''[0.5, 0.5]''), search_text = None, category_id = Some k\<rparr>,
        Reachable (demo_store\<lparr>articles_id_seq := 2,
          articles := [\<lparr>a_id = Some 1, title = Some T, content = Some (py ''C''),
                         vector = Some (py ''[0.5, 0.5]''), search_text = None,
                         category_id = Some k\<rparr>]\<rparr>))"
  unfolding create_article_def demo_embedding
  by (auto simp: demo_dumps commit_article_def refresh_article_def demo_store_def Let_def)


text \<open>
  Claim C9. The stored vector depends on the content only: two calls of
  \<^verbatim>\<open>create_article\<close> with the same content that both succeed, whatever their titles,
  category ids and stores, return and store records with the same vector, the
  serialization of the model's embedding of the content.
\<close>

theorem create_article_vector:
  "create_article lib db1 T1 C K1 = (Inr a1, db1') \<and> create_article lib db2 T2 C K2 = (Inr a2, db2')
   \<longrightarrow> vector a1 = vector a2
       \<and> (\<exists>v. model_encode lib C = Inr v \<and> vector a1 = Some (json_dumps lib v))
       \<and> (\<exists>st1. db1' = Reachable st1 \<and> a1 \<in> set (articles st1))
       \<and> (\<exists>st2. db2' = Reachable st2 \<and> a2 \<in> set (articles st2))"
proof (intro impI, elim conjE)
  assume 1: "create_article lib db1 T1 C K1 = (Inr a1, db1')"
    and 2: "create_article lib db2 T2 C K2 = (Inr a2, db2')"
  from create_article_Inr [OF 1] create_article_Inr [OF 2]
  show "vector a1 = vector a2
       \<and> (\<exists>v. model_encode lib C = Inr v \<and> vector a1 = Some (json_dumps lib v))
       \<and> (\<exists>st1. db1' = Reachable st1 \<and> a1 \<in> set (articles st1))
       \<and> (\<exists>st2. db2' = Reachable st2 \<and> a2 \<in> set (articles st2))"
    by auto
qed

text \<open>
  C9 at work: the same content under two titles and two categories.
\<close>

theorem create_article_vector_witness:
  "create_article demo_libs (Reachable demo_store) (py ''T1'') (py ''C'') 1
     = (Inr \<lparr>a_id = Some 1, title = Some (py ''T1''), content = Some (py ''C''),
             vector = Some (py ''[0.5, 0.5]''), search_text = None, category_id = Some 1\<rparr>,
        Reachable (demo_store\<lparr>articles_id_seq := 2,
          articles := [\<lparr>a_id = Some 1, title = Some (py ''T1''), content = Some (py ''C''),
                         vector = Some (py ''[0.5, 0.5]''), search_text = None,
                         category_id = Some 1\<rparr>]\<rparr>))
   \<and> create_article demo_libs (Reachable demo_store) (py ''T2'') (py ''C'') 2
     = (Inr \<lparr>a_id = Some 1, title = Some (py ''T2''), content = Some (py ''C''),
             vector = Some (py ''[0.5, 0.5]''), search_text = None, category_id = Some 2\<rparr>,
        Reachable (demo_store\<lparr>articles_id_seq := 2,
          articles := [\<lparr>a_id = Some 1, title = Some (py ''T2''), content = Some (py ''C''),
                         vector = Some (py ''[0.5, 0.5]''), search_text = None,
                         category_id = Some 2\<rparr>]\<rparr>))
   \<and> vector \<lparr>a_id = Some 1, title = Some (py ''T1''), content = Some (py ''C''),
             vector = Some (py ''[0.5, 0.5]''), search_text = None, category_id = Some 1\<rparr>
     = vector \<lparr>a_id = Some 1, title = Some (py ''T2''), content = Some (py ''C''),
             vector = Some (py ''[0.5, 0.5]''), search_text = None, category_id = Some 2\<rparr>"
  using create_article_vector [of demo_libs "Reachable demo_store" "py ''T1''" "py ''C''" 1 _ _
      "Reachable demo_store" "py ''T2''" 2]
    demo_create [of 1 "py ''T1''"] demo_create [of 2 "py ''T2''"]
  by simp



section \<open>Tokens and the plain routes\<close>


















text \<open>
  Claim C8. \<^verbatim>\<open>/health\<close> answers 200 with the body \<^verbatim>\<open>{"status": "OK"}\<close> for every
  request, every behaviour of the libraries and every state of the store, reachable or
  not: the handler reads none of them.
\<close>

theorem health_always_ok:
  "app lib db GET_health req
     = \<lparr>status_code = 200, body = JSON [''status'' \<mapsto> PyStr (py ''OK'')]\<rparr>"
  by (simp add: app_def respond_def health_check_def)

end
